theory Spec2Isabelle
  imports Complex_Main
begin

section \<open>The metrics store of pkg/metricsstore/metricsstore.go\<close>

text \<open>
  The package declares four Prometheus instruments and a private registry (\<open>init\<close>),
  registers the instruments (\<open>Start\<close>), unregisters them (\<open>Stop\<close>) and returns an HTTP
  handler that renders the registry (\<open>Handler\<close>). These four functions are embedded from
  metricsstore.go. Everything they call belongs to the Prometheus Go client
  (packages \<open>prometheus\<close> and \<open>promhttp\<close>), which metricsstore.go imports; that
  library is embedded in the first subsections below, each definition saying what it stands for.
  Sample values are \<open>float64\<close> in the library and \<open>real\<close> here: rounding is not modelled.
\<close>

subsection \<open>Client library: descriptors\<close>

text \<open>
  Modelled from the spec: the options an instrument is built from ("a root namespace, a
  subsystem name, a metric name, a help string, and for histograms an explicit bucket
  boundary sequence"). The library types \<open>CounterOpts\<close>, \<open>GaugeOpts\<close> and
  \<open>HistogramOpts\<close> are not part of metricsstore.go.
\<close>

record Opts =
  Namespace :: string
  Subsystem :: string
  Name :: string
  Help :: string

record HistogramOpts = Opts +
  Buckets :: "real list"

text \<open>
  Modelled from the spec: the descriptor of an instrument, its identity within a registry
  ("no two instruments share {namespace, subsystem, name}"). The library joins the
  non-empty parts of the name with an underscore (\<open>BuildFQName\<close>); the spec's
  fully-prefixed names such as \<open>osm_k8s_api_event_count\<close> are these joins.
\<close>

record Desc =
  fqName :: string
  helpText :: string
  variableLabels :: "string list"

definition BuildFQName :: "string \<Rightarrow> string \<Rightarrow> string \<Rightarrow> string" where
  "BuildFQName ns subsystem name =
     (if name = [] then []
      else if ns \<noteq> [] \<and> subsystem \<noteq> [] then ns @ ''_'' @ subsystem @ ''_'' @ name
      else if ns \<noteq> [] then ns @ ''_'' @ name
      else if subsystem \<noteq> [] then subsystem @ ''_'' @ name
      else name)"

definition NewDesc :: "'a Opts_scheme \<Rightarrow> string list \<Rightarrow> Desc" where
  "NewDesc opts labelNames =
     \<lparr>fqName = BuildFQName (Namespace opts) (Subsystem opts) (Name opts),
      helpText = Help opts,
      variableLabels = labelNames\<rparr>"

text \<open>
  Modelled from the spec: the registry tells descriptors apart by an identity hashed from
  the fully-qualified name and the constant label values, and checks that one name always
  comes with the same label names and help string. No instrument of this package has
  constant labels, and the hashes are taken to be injective, so the identity is the
  fully-qualified name and the dimension hash is the pair of label names and help string.
\<close>

definition descID :: "Desc \<Rightarrow> string" where
  "descID d = fqName d"

definition dimHash :: "Desc \<Rightarrow> string list \<times> string" where
  "dimHash d = (variableLabels d, helpText d)"

subsection \<open>The instruments declared by init\<close>

definition metricsRootNamespace :: string where
  "metricsRootNamespace = ''osm''"

definition K8sAPIEventCounterOpts :: Opts where
  "K8sAPIEventCounterOpts =
     \<lparr>Namespace = metricsRootNamespace, Subsystem = ''k8s'', Name = ''api_event_count'',
      Help = ''represents the number of events received from the Kubernetes API Server''\<rparr>"

definition ProxyConnectCountOpts :: Opts where
  "ProxyConnectCountOpts =
     \<lparr>Namespace = metricsRootNamespace, Subsystem = ''proxy'', Name = ''connect_count'',
      Help = ''represents the number of proxies connected to OSM controller''\<rparr>"

definition InjectorSidecarCountOpts :: Opts where
  "InjectorSidecarCountOpts =
     \<lparr>Namespace = metricsRootNamespace, Subsystem = ''injector'',
      Name = ''injector_sidecar_count'',
      Help = ''Counts the number of injector webhooks dealt with over time''\<rparr>"

definition InjectorRqTimeOpts :: HistogramOpts where
  "InjectorRqTimeOpts =
     \<lparr>Namespace = metricsRootNamespace, Subsystem = ''injector'', Name = ''injector_rq_time'',
      Help = ''Histogram for time taken to perform sidecar injection'',
      Buckets = [1/10, 1/4, 1/2, 1, 5/2, 5, 10, 20, 40]\<rparr>"

definition InjectorRqTimeLabels :: "string list" where
  "InjectorRqTimeLabels = [''success'']"

text \<open>
  Modelled from the spec: the handler's self-instrumentation ("meta-counters describing the
  handler's own usage"). In the library \<open>promhttp.InstrumentMetricHandler\<close> builds a
  counter vector of scrapes by HTTP status code and a gauge of scrapes in flight, with
  these options.
\<close>

definition promhttpRequestsTotalOpts :: Opts where
  "promhttpRequestsTotalOpts =
     \<lparr>Namespace = [], Subsystem = [], Name = ''promhttp_metric_handler_requests_total'',
      Help = ''Total number of scrapes by HTTP status code.''\<rparr>"

definition promhttpRequestsInFlightOpts :: Opts where
  "promhttpRequestsInFlightOpts =
     \<lparr>Namespace = [], Subsystem = [], Name = ''promhttp_metric_handler_requests_in_flight'',
      Help = ''Current number of scrapes being served.''\<rparr>"

text \<open>
  The registry holds pointers to collectors, and the store's fields hold pointers to the
  same objects. A collector is therefore named here by which object it is; its current
  value is read from the state whenever the registry is gathered, so a write through the
  store's field is seen by the next scrape.
\<close>

datatype Collector =
    CK8sAPIEventCounter
  | CProxyConnectCount
  | CInjectorSidecarCount
  | CInjectorRqTime
  | CPromhttpRequestsTotal
  | CPromhttpRequestsInFlight

fun desc_of :: "Collector \<Rightarrow> Desc" where
  "desc_of CK8sAPIEventCounter = NewDesc K8sAPIEventCounterOpts []"
| "desc_of CProxyConnectCount = NewDesc ProxyConnectCountOpts []"
| "desc_of CInjectorSidecarCount = NewDesc InjectorSidecarCountOpts []"
| "desc_of CInjectorRqTime = NewDesc InjectorRqTimeOpts InjectorRqTimeLabels"
| "desc_of CPromhttpRequestsTotal = NewDesc promhttpRequestsTotalOpts [''code'']"
| "desc_of CPromhttpRequestsInFlight = NewDesc promhttpRequestsInFlightOpts []"

subsection \<open>Client library: instrument values\<close>

text \<open>
  Modelled from the spec: "Histogram: distribution metric recording observation counts per
  bucket boundary plus a running sum". As in the library, a histogram keeps one count per
  declared upper bound (not cumulative), the sum and the number of observations; an
  observation above the last bound is counted only in the total.
\<close>

record Histogram =
  buckets :: "nat list"
  sampleSum :: real
  sampleCount :: nat

definition NewHistogram :: "real list \<Rightarrow> Histogram" where
  "NewHistogram upperBounds =
     \<lparr>buckets = replicate (length upperBounds) 0, sampleSum = 0, sampleCount = 0\<rparr>"

text \<open>Modelled from the spec: the bucket an observation falls into ("observation counts
  per bucket boundary"), the library's search over the sorted bounds: the index of the first
  upper bound that is at least \<open>v\<close>, or the number of bounds when there is none.\<close>

fun findBucket :: "real list \<Rightarrow> real \<Rightarrow> nat" where
  "findBucket [] v = 0"
| "findBucket (b # bs) v = (if v \<le> b then 0 else Suc (findBucket bs v))"

definition Histogram_Observe :: "real list \<Rightarrow> real \<Rightarrow> Histogram \<Rightarrow> Histogram" where
  "Histogram_Observe upperBounds v h =
     (let i = findBucket upperBounds v in
      h\<lparr>buckets := (if i < length upperBounds
                     then (buckets h)[i := buckets h ! i + 1] else buckets h),
        sampleSum := sampleSum h + v,
        sampleCount := sampleCount h + 1\<rparr>)"

text \<open>
  Modelled from the spec: "Labeled metric: a metric instrument partitioned by one or more
  named dimensions". A vector keeps one child per tuple of label values, created (at
  zero) the first time the tuple is asked for.
\<close>

fun upd_child :: "'m \<Rightarrow> ('m \<Rightarrow> 'm) \<Rightarrow> string list \<Rightarrow> (string list \<times> 'm) list
    \<Rightarrow> (string list \<times> 'm) list" where
  "upd_child new f lvs [] = [(lvs, f new)]"
| "upd_child new f lvs ((k, m) # cs) =
     (if k = lvs then (k, f m) # cs else (k, m) # upd_child new f lvs cs)"

text \<open>
  Modelled from the spec: what a scrape reads ("a read of all currently registered
  instrument values"). This is the library's gathered form, one family per metric name
  with one metric per tuple of label values; the text exposition format prints a family's
  name on each of its lines and prints nothing for a name that has no family. A histogram
  is written with cumulative counts, one per declared upper bound.
\<close>

datatype MetricType = COUNTER | GAUGE | HISTOGRAM

datatype Sample =
    CounterSample real
  | GaugeSample real
  | HistogramSample nat real "(real \<times> nat) list"

record Metric =
  labels :: "(string \<times> string) list"
  sample :: Sample

record MetricFamily =
  mf_name :: string
  mf_help :: string
  mf_type :: MetricType
  mf_metric :: "Metric list"

fun cumulative :: "nat \<Rightarrow> real list \<Rightarrow> nat list \<Rightarrow> (real \<times> nat) list" where
  "cumulative acc (b # bs) (c # cs) = (b, acc + c) # cumulative (acc + c) bs cs"
| "cumulative acc _ _ = []"

definition Histogram_Write :: "real list \<Rightarrow> Histogram \<Rightarrow> Sample" where
  "Histogram_Write upperBounds h =
     HistogramSample (sampleCount h) (sampleSum h) (cumulative 0 upperBounds (buckets h))"

subsection \<open>Client library: the registry\<close>

text \<open>
  Modelled from the spec: "Registry: a mutable collection of registered instruments";
  "double registration of the same identity must fail rather than silently duplicate";
  unregistering "returns whether removal occurred". As in the library, the registry keeps
  its collectors by identity, the set of registered descriptor identities, and for every
  name ever registered its dimension hash, which unregistering leaves in place.
\<close>

record Registry =
  collectorsByID :: "(string \<times> Collector) list"
  descIDs :: "string list"
  dimHashesByName :: "(string \<times> (string list \<times> string)) list"

definition NewRegistry :: Registry where
  "NewRegistry = \<lparr>collectorsByID = [], descIDs = [], dimHashesByName = []\<rparr>"

datatype error =
    AlreadyRegisteredError Collector Collector
  | DuplicateDescError Desc
  | InconsistentDescError Desc
  | InconsistentCardinalityError nat nat
  | TypeAssertionError Collector

text \<open>
  Modelled from the spec: the library's \<open>Registry.Register\<close> ("double registration of the
  same identity must fail rather than silently duplicate"). It returns the error (or none)
  and the registry after the call. The checks run in the library's order: a name already
  known with other label names or help string; a collector already registered under the
  same identity; a descriptor identity already taken. Only when all pass is the collector
  entered, and its name's dimension hash remembered if the name is new.
\<close>

definition Register :: "Collector \<Rightarrow> Registry \<Rightarrow> error option \<times> Registry" where
  "Register c r =
     (let desc = desc_of c;
          collectorID = descID desc;
          known = map_of (dimHashesByName r) (fqName desc)
      in
        if known \<noteq> None \<and> known \<noteq> Some (dimHash desc)
        then (Some (InconsistentDescError desc), r)
        else
          case map_of (collectorsByID r) collectorID of
            Some existing \<Rightarrow> (Some (AlreadyRegisteredError existing c), r)
          | None \<Rightarrow>
              if descID desc \<in> set (descIDs r) then (Some (DuplicateDescError desc), r)
              else (None,
                    r\<lparr>collectorsByID := collectorsByID r @ [(collectorID, c)],
                      descIDs := descIDs r @ [descID desc],
                      dimHashesByName :=
                        (if known = None
                         then dimHashesByName r @ [(fqName desc, dimHash desc)]
                         else dimHashesByName r)\<rparr>))"

text \<open>Modelled from the spec: the library's \<open>Registry.MustRegister\<close> ("signals a fatal
  error if any registration fails"). It registers its arguments in order and panics with the
  first error; the panic is the \<open>Some\<close> of the result, and the collectors after it are
  not tried.\<close>

fun MustRegister :: "Collector list \<Rightarrow> Registry \<Rightarrow> error option \<times> Registry" where
  "MustRegister [] r = (None, r)"
| "MustRegister (c # cs) r =
     (case Register c r of
        (Some err, r') \<Rightarrow> (Some err, r')
      | (None, r') \<Rightarrow> MustRegister cs r')"

text \<open>Modelled from the spec: the library's \<open>Registry.Unregister\<close> ("returns whether
  removal occurred"): a collector not registered under its identity gives \<open>False\<close> and no
  change; otherwise the collector and its descriptor identity are removed.\<close>

definition Unregister :: "Collector \<Rightarrow> Registry \<Rightarrow> bool \<times> Registry" where
  "Unregister c r =
     (let collectorID = descID (desc_of c) in
      case map_of (collectorsByID r) collectorID of
        None \<Rightarrow> (False, r)
      | Some existing \<Rightarrow>
          (True, r\<lparr>collectorsByID := filter (\<lambda>(k, v). k \<noteq> collectorID) (collectorsByID r),
                   descIDs := removeAll collectorID (descIDs r)\<rparr>))"

subsection \<open>The store\<close>

text \<open>
  The struct \<open>MetricsStore\<close>: the four instruments and the registry. The last two fields
  are not fields of the Go struct: they are the two collectors that \<open>Handler\<close> has the
  library create and register in \<open>registry\<close>, objects reachable only through the registry
  and the returned handler, kept here because the state is passed explicitly.
\<close>

record MetricsStore =
  K8sAPIEventCounter :: real
  ProxyConnectCount :: real
  InjectorSidecarCount :: real
  InjectorRqTime :: "(string list \<times> Histogram) list"
  registry :: Registry
  promhttpRequestsTotal :: "(string list \<times> real) list"
  promhttpRequestsInFlight :: real

text \<open>\<open>init\<close>: every instrument at zero, the histogram vector without children, an empty
  registry.\<close>

definition init :: MetricsStore where
  "init =
     \<lparr>K8sAPIEventCounter = 0,
      ProxyConnectCount = 0,
      InjectorSidecarCount = 0,
      InjectorRqTime = [],
      registry = NewRegistry,
      promhttpRequestsTotal = [],
      promhttpRequestsInFlight = 0\<rparr>"

text \<open>A call either returns or panics; after a panic the state it had reached stays
  (the store is a process-wide variable), so a call yields the panic, if any, and the state.\<close>

definition on_registry :: "(Registry \<Rightarrow> error option \<times> Registry) \<Rightarrow> MetricsStore
    \<Rightarrow> error option \<times> MetricsStore" where
  "on_registry f ms = (case f (registry ms) of (e, r) \<Rightarrow> (e, ms\<lparr>registry := r\<rparr>))"

definition and_then :: "error option \<times> MetricsStore
    \<Rightarrow> (MetricsStore \<Rightarrow> error option \<times> MetricsStore) \<Rightarrow> error option \<times> MetricsStore" where
  "and_then x f = (case x of (Some e, ms) \<Rightarrow> (Some e, ms) | (None, ms) \<Rightarrow> f ms)"

text \<open>\<open>Start\<close>: the four \<open>MustRegister\<close> calls on \<open>ms.registry\<close>, in the source's
  order; the first panic ends the call.\<close>

definition Start :: "MetricsStore \<Rightarrow> error option \<times> MetricsStore" where
  "Start ms =
     and_then (and_then (and_then
       (on_registry (MustRegister [CK8sAPIEventCounter]) ms)
       (on_registry (MustRegister [CProxyConnectCount])))
       (on_registry (MustRegister [CInjectorSidecarCount])))
       (on_registry (MustRegister [CInjectorRqTime]))"

text \<open>\<open>Stop\<close>: the four \<open>Unregister\<close> calls on \<open>ms.registry\<close>, in the source's order,
  each boolean dropped. \<open>Stop_results\<close> is the four booleans the calls return, \<open>Stop\<close>
  the state they leave; \<open>Stop\<close> has no result and no error in the source.\<close>

definition Stop_calls :: "MetricsStore \<Rightarrow> bool list \<times> MetricsStore" where
  "Stop_calls ms =
     (let (b1, r1) = Unregister CK8sAPIEventCounter (registry ms);
          (b2, r2) = Unregister CProxyConnectCount r1;
          (b3, r3) = Unregister CInjectorSidecarCount r2;
          (b4, r4) = Unregister CInjectorRqTime r3
      in ([b1, b2, b3, b4], ms\<lparr>registry := r4\<rparr>))"

definition Stop_results :: "MetricsStore \<Rightarrow> bool list" where
  "Stop_results ms = fst (Stop_calls ms)"

definition Stop :: "MetricsStore \<Rightarrow> MetricsStore" where
  "Stop ms = snd (Stop_calls ms)"

subsection \<open>Writes through the instrument handles\<close>

text \<open>
  Modelled from the spec: the "mutation surface exposed to collaborators": increment a
  counter, set the gauge, record an observation under a tuple of label values. The calls
  are the library's \<open>Inc\<close>, \<open>Set\<close> and \<open>WithLabelValues(...).Observe\<close>; the last
  panics when the number of label values is not the number of label names.
\<close>

definition K8sAPIEventCounter_Inc :: "MetricsStore \<Rightarrow> MetricsStore" where
  "K8sAPIEventCounter_Inc ms = ms\<lparr>K8sAPIEventCounter := K8sAPIEventCounter ms + 1\<rparr>"

definition InjectorSidecarCount_Inc :: "MetricsStore \<Rightarrow> MetricsStore" where
  "InjectorSidecarCount_Inc ms = ms\<lparr>InjectorSidecarCount := InjectorSidecarCount ms + 1\<rparr>"

definition ProxyConnectCount_Set :: "real \<Rightarrow> MetricsStore \<Rightarrow> MetricsStore" where
  "ProxyConnectCount_Set v ms = ms\<lparr>ProxyConnectCount := v\<rparr>"

definition InjectorRqTime_Observe :: "string list \<Rightarrow> real \<Rightarrow> MetricsStore
    \<Rightarrow> error option \<times> MetricsStore" where
  "InjectorRqTime_Observe lvs v ms =
     (if length lvs \<noteq> length InjectorRqTimeLabels
      then (Some (InconsistentCardinalityError (length InjectorRqTimeLabels) (length lvs)), ms)
      else (None, ms\<lparr>InjectorRqTime :=
              upd_child (NewHistogram (Buckets InjectorRqTimeOpts))
                (Histogram_Observe (Buckets InjectorRqTimeOpts) v) lvs (InjectorRqTime ms)\<rparr>))"

subsection \<open>Gathering and the handler\<close>

text \<open>
  Modelled from the spec: "serializes the current value of every registered instrument".
  Each registered collector is asked for its metrics: a counter or a gauge has one, a
  vector has one per child. A collector that yields no metric (a vector without children)
  contributes no family, as in the library, where families are made from the metrics
  received. The six names are pairwise different, so every family comes from one collector.
\<close>

fun Collect_metrics :: "Collector \<Rightarrow> MetricsStore \<Rightarrow> Metric list" where
  "Collect_metrics CK8sAPIEventCounter ms =
     [\<lparr>labels = [], sample = CounterSample (K8sAPIEventCounter ms)\<rparr>]"
| "Collect_metrics CProxyConnectCount ms =
     [\<lparr>labels = [], sample = GaugeSample (ProxyConnectCount ms)\<rparr>]"
| "Collect_metrics CInjectorSidecarCount ms =
     [\<lparr>labels = [], sample = CounterSample (InjectorSidecarCount ms)\<rparr>]"
| "Collect_metrics CInjectorRqTime ms =
     map (\<lambda>(lvs, h). \<lparr>labels = zip InjectorRqTimeLabels lvs,
                       sample = Histogram_Write (Buckets InjectorRqTimeOpts) h\<rparr>)
       (InjectorRqTime ms)"
| "Collect_metrics CPromhttpRequestsTotal ms =
     map (\<lambda>(lvs, v). \<lparr>labels = zip [''code''] lvs, sample = CounterSample v\<rparr>)
       (promhttpRequestsTotal ms)"
| "Collect_metrics CPromhttpRequestsInFlight ms =
     [\<lparr>labels = [], sample = GaugeSample (promhttpRequestsInFlight ms)\<rparr>]"

fun type_of :: "Collector \<Rightarrow> MetricType" where
  "type_of CK8sAPIEventCounter = COUNTER"
| "type_of CProxyConnectCount = GAUGE"
| "type_of CInjectorSidecarCount = COUNTER"
| "type_of CInjectorRqTime = HISTOGRAM"
| "type_of CPromhttpRequestsTotal = COUNTER"
| "type_of CPromhttpRequestsInFlight = GAUGE"

definition family_of :: "Collector \<Rightarrow> MetricsStore \<Rightarrow> MetricFamily list" where
  "family_of c ms =
     (case Collect_metrics c ms of
        [] \<Rightarrow> []
      | m # rest \<Rightarrow>
          [\<lparr>mf_name = fqName (desc_of c), mf_help = helpText (desc_of c),
            mf_type = type_of c, mf_metric = m # rest\<rparr>])"

definition Gather :: "MetricsStore \<Rightarrow> MetricFamily list" where
  "Gather ms = concat (map (\<lambda>(k, c). family_of c ms) (collectorsByID (registry ms)))"

text \<open>
  \<open>Handler\<close> wraps the rendering handler of the registry with
  \<open>promhttp.InstrumentMetricHandler\<close>. Modelled from the spec: that library function
  ("self-instrumentation wraps the inner render step"), which first registers its two
  collectors in the same registry: the counter vector, with children for the codes 200, 500 and 503, and the
  in-flight gauge. A collector already registered under the identity is taken over instead
  (the library asserts its type and panics on another kind of collector; the only ones
  this program registers under the two identities are the handler's own). Any other
  registration error panics.
\<close>

definition registerRequestsTotal :: "MetricsStore \<Rightarrow> error option \<times> MetricsStore" where
  "registerRequestsTotal ms =
     (case Register CPromhttpRequestsTotal (registry ms) of
        (None, r) \<Rightarrow>
          (None, ms\<lparr>registry := r,
                    promhttpRequestsTotal := [([''200''], 0), ([''500''], 0), ([''503''], 0)]\<rparr>)
      | (Some (AlreadyRegisteredError existing new), r) \<Rightarrow>
          if existing = CPromhttpRequestsTotal then (None, ms)
          else (Some (TypeAssertionError existing), ms)
      | (Some e, r) \<Rightarrow> (Some e, ms))"

definition registerRequestsInFlight :: "MetricsStore \<Rightarrow> error option \<times> MetricsStore" where
  "registerRequestsInFlight ms =
     (case Register CPromhttpRequestsInFlight (registry ms) of
        (None, r) \<Rightarrow> (None, ms\<lparr>registry := r, promhttpRequestsInFlight := 0\<rparr>)
      | (Some (AlreadyRegisteredError existing new), r) \<Rightarrow>
          if existing = CPromhttpRequestsInFlight then (None, ms)
          else (Some (TypeAssertionError existing), ms)
      | (Some e, r) \<Rightarrow> (Some e, ms))"

definition Handler :: "MetricsStore \<Rightarrow> error option \<times> MetricsStore" where
  "Handler ms = and_then (registerRequestsTotal ms) registerRequestsInFlight"

text \<open>
  Modelled from the spec: one invocation of the returned handler ("serializes the current
  value of every registered instrument and also updates meta-counters describing the
  handler's own usage"), the library's \<open>ServeHTTP\<close>: the in-flight gauge goes up, the registry is
  gathered and rendered, the gauge goes down again, and the child of the request counter
  for the response's status code is incremented. Nothing this program registers can make
  gathering fail, so the status is 200.
\<close>

record Response =
  status :: nat
  body :: "MetricFamily list"

definition ServeHTTP :: "MetricsStore \<Rightarrow> MetricsStore \<times> Response" where
  "ServeHTTP ms =
     (let ms1 = ms\<lparr>promhttpRequestsInFlight := promhttpRequestsInFlight ms + 1\<rparr>;
          mfs = Gather ms1;
          ms2 = ms1\<lparr>promhttpRequestsInFlight := promhttpRequestsInFlight ms1 - 1\<rparr>;
          ms3 = ms2\<lparr>promhttpRequestsTotal :=
                  upd_child 0 (\<lambda>v. v + 1) [''200''] (promhttpRequestsTotal ms2)\<rparr>
      in (ms3, \<lparr>status = 200, body = mfs\<rparr>))"

subsection \<open>Reading a scrape\<close>

definition family_names :: "Response \<Rightarrow> string set" where
  "family_names resp = set (map mf_name (body resp))"

definition scraped :: "Response \<Rightarrow> string \<Rightarrow> (string \<times> string) list \<Rightarrow> Sample option" where
  "scraped resp n ls =
     (case find (\<lambda>f. mf_name f = n) (body resp) of
        None \<Rightarrow> None
      | Some f \<Rightarrow> map_option sample (find (\<lambda>m. labels m = ls) (mf_metric f)))"

subsection \<open>Well-formed registries\<close>

text \<open>
  What holds of every registry this program builds: a collector is stored under its own
  identity, the registered descriptor identities are those of the stored collectors, and
  a remembered dimension hash is the one of the collector that has the name.
\<close>

definition all_collectors :: "Collector list" where
  "all_collectors =
     [CK8sAPIEventCounter, CProxyConnectCount, CInjectorSidecarCount, CInjectorRqTime,
      CPromhttpRequestsTotal, CPromhttpRequestsInFlight]"

definition registry_ok :: "Registry \<Rightarrow> bool" where
  "registry_ok r \<longleftrightarrow>
     list_all (\<lambda>(k, c). k = descID (desc_of c)) (collectorsByID r) \<and>
     set (descIDs r) = set (map fst (collectorsByID r)) \<and>
     list_all (\<lambda>(n, h). list_all (\<lambda>c. fqName (desc_of c) \<noteq> n \<or> h = dimHash (desc_of c))
                 all_collectors) (dimHashesByName r)"

text \<open>The collectors currently held by the store's registry.\<close>

definition registered :: "MetricsStore \<Rightarrow> Collector set" where
  "registered ms = snd ` set (collectorsByID (registry ms))"

text \<open>A sequence of lifecycle calls; a call that panics leaves its state and the sequence
  goes on (the panic recovered by the caller).\<close>

datatype lifecycle_call = CallStart | CallStop

fun run :: "lifecycle_call list \<Rightarrow> MetricsStore \<Rightarrow> MetricsStore" where
  "run [] ms = ms"
| "run (CallStart # cs) ms = run cs (snd (Start ms))"
| "run (CallStop # cs) ms = run cs (Stop ms)"

text \<open>What holds of the histogram vector in every state this program reaches: a child
  has as many label values as the vector has label names, and one count per declared bucket.\<close>

definition histograms_ok :: "MetricsStore \<Rightarrow> bool" where
  "histograms_ok ms \<longleftrightarrow>
     list_all (\<lambda>(lvs, h). length lvs = length InjectorRqTimeLabels \<and>
                 length (buckets h) = length (Buckets InjectorRqTimeOpts))
       (InjectorRqTime ms)"

text \<open>The states the program reaches from \<open>init\<close> by the package's functions, by
  invocations of the handler and by writes through the instrument handles.\<close>

inductive reachable :: "MetricsStore \<Rightarrow> bool" where
  reachable_init: "reachable init"
| reachable_Start: "reachable ms \<Longrightarrow> reachable (snd (Start ms))"
| reachable_Stop: "reachable ms \<Longrightarrow> reachable (Stop ms)"
| reachable_Handler: "reachable ms \<Longrightarrow> reachable (snd (Handler ms))"
| reachable_ServeHTTP: "reachable ms \<Longrightarrow> reachable (fst (ServeHTTP ms))"
| reachable_K8sAPIEventCounter_Inc: "reachable ms \<Longrightarrow> reachable (K8sAPIEventCounter_Inc ms)"
| reachable_InjectorSidecarCount_Inc:
    "reachable ms \<Longrightarrow> reachable (InjectorSidecarCount_Inc ms)"
| reachable_ProxyConnectCount_Set: "reachable ms \<Longrightarrow> reachable (ProxyConnectCount_Set v ms)"
| reachable_InjectorRqTime_Observe:
    "reachable ms \<Longrightarrow> reachable (snd (InjectorRqTime_Observe lvs v ms))"

section \<open>Properties\<close>

subsection \<open>Names and identities\<close>

text \<open>The fully-qualified names of the six collectors, and that they are pairwise different.\<close>

lemma fqName_K8sAPIEventCounter: "fqName (desc_of CK8sAPIEventCounter) = ''osm_k8s_api_event_count''"
  by (simp add: NewDesc_def BuildFQName_def K8sAPIEventCounterOpts_def metricsRootNamespace_def)

lemma fqName_ProxyConnectCount: "fqName (desc_of CProxyConnectCount) = ''osm_proxy_connect_count''"
  by (simp add: NewDesc_def BuildFQName_def ProxyConnectCountOpts_def metricsRootNamespace_def)

lemma fqName_InjectorSidecarCount:
  "fqName (desc_of CInjectorSidecarCount) = ''osm_injector_injector_sidecar_count''"
  by (simp add: NewDesc_def BuildFQName_def InjectorSidecarCountOpts_def metricsRootNamespace_def)

lemma fqName_InjectorRqTime: "fqName (desc_of CInjectorRqTime) = ''osm_injector_injector_rq_time''"
  by (simp add: NewDesc_def BuildFQName_def InjectorRqTimeOpts_def metricsRootNamespace_def)

lemma fqName_PromhttpRequestsTotal:
  "fqName (desc_of CPromhttpRequestsTotal) = ''promhttp_metric_handler_requests_total''"
  by (simp add: NewDesc_def BuildFQName_def promhttpRequestsTotalOpts_def)

lemma fqName_PromhttpRequestsInFlight:
  "fqName (desc_of CPromhttpRequestsInFlight) = ''promhttp_metric_handler_requests_in_flight''"
  by (simp add: NewDesc_def BuildFQName_def promhttpRequestsInFlightOpts_def)

lemmas fqName_simps = fqName_K8sAPIEventCounter fqName_ProxyConnectCount
  fqName_InjectorSidecarCount fqName_InjectorRqTime fqName_PromhttpRequestsTotal
  fqName_PromhttpRequestsInFlight

lemma fqName_inj: "fqName (desc_of c) = fqName (desc_of c') \<longleftrightarrow> c = c'"
  by (cases c; cases c'; simp only: fqName_simps; simp)

declare desc_of.simps [simp del]

lemma descID_inj: "descID (desc_of c) = descID (desc_of c') \<longleftrightarrow> c = c'"
  by (simp add: descID_def fqName_inj)

lemma in_all_collectors: "c \<in> set all_collectors"
  by (cases c) (simp_all add: all_collectors_def)

subsection \<open>Registering and unregistering in a well-formed registry\<close>

lemma map_of_own_id:
  "list_all (\<lambda>(k, c). k = descID (desc_of c)) cs \<Longrightarrow>
   map_of cs (descID (desc_of c)) = (if c \<in> snd ` set cs then Some c else None)"
  by (induction cs) (auto simp: descID_inj)

lemma keys_own_id:
  "list_all (\<lambda>(k, c). k = descID (desc_of c)) cs \<Longrightarrow>
   descID (desc_of c) \<in> fst ` set cs \<longleftrightarrow> c \<in> snd ` set cs"
  by (induction cs) (auto simp: descID_inj)

lemma dims_ok:
  assumes "registry_ok r" and "map_of (dimHashesByName r) (fqName (desc_of c)) = Some h"
  shows "h = dimHash (desc_of c)"
proof -
  from assms(2) have "(fqName (desc_of c), h) \<in> set (dimHashesByName r)"
    by (rule map_of_SomeD)
  with assms(1) have "list_all (\<lambda>c'. fqName (desc_of c') \<noteq> fqName (desc_of c) \<or> h = dimHash (desc_of c'))
      all_collectors"
    by (auto simp: registry_ok_def list_all_iff)
  then show ?thesis
    using in_all_collectors [of c] by (auto simp: list_all_iff)
qed

lemma dims_known:
  assumes "registry_ok r"
  shows "map_of (dimHashesByName r) (fqName (desc_of c)) = None \<or>
    map_of (dimHashesByName r) (fqName (desc_of c)) = Some (dimHash (desc_of c))"
  using dims_ok [OF assms, of c] by (cases "map_of (dimHashesByName r) (fqName (desc_of c))") auto

lemma Register_registered:
  assumes "registry_ok r" and "c \<in> snd ` set (collectorsByID r)"
  shows "Register c r = (Some (AlreadyRegisteredError c c), r)"
proof -
  from assms have m: "map_of (collectorsByID r) (descID (desc_of c)) = Some c"
    by (simp add: registry_ok_def map_of_own_id)
  show ?thesis
    using dims_known [OF assms(1), of c] m
    by (auto simp: Register_def Let_def)
qed

lemma Register_fresh:
  assumes "registry_ok r" and "c \<notin> snd ` set (collectorsByID r)"
  shows "fst (Register c r) = None"
    and "collectorsByID (snd (Register c r)) = collectorsByID r @ [(descID (desc_of c), c)]"
    and "registry_ok (snd (Register c r))"
proof -
  from assms have m: "map_of (collectorsByID r) (descID (desc_of c)) = None"
    by (simp add: registry_ok_def map_of_own_id)
  from assms have d: "descID (desc_of c) \<notin> set (descIDs r)"
    using keys_own_id [of "collectorsByID r" c] by (simp add: registry_ok_def)
  show "fst (Register c r) = None"
    using dims_known [OF assms(1), of c] m d
    by (auto simp: Register_def Let_def)
  show "collectorsByID (snd (Register c r)) = collectorsByID r @ [(descID (desc_of c), c)]"
    using dims_known [OF assms(1), of c] m d
    by (auto simp: Register_def Let_def)
  show "registry_ok (snd (Register c r))"
    using dims_known [OF assms(1), of c] m d assms(1)
    by (auto simp: Register_def Let_def registry_ok_def list_all_iff fqName_inj)
qed

lemma Register_fst: "registry_ok r \<Longrightarrow> fst (Register c r) = None \<longleftrightarrow> c \<notin> snd ` set (collectorsByID r)"
proof (cases "c \<in> snd ` set (collectorsByID r)")
  case True
  assume "registry_ok r"
  from Register_registered [OF this True] True show ?thesis by simp
next
  case False
  assume "registry_ok r"
  from Register_fresh(1) [OF this False] False show ?thesis by simp
qed

lemma Register_ok: "registry_ok r \<Longrightarrow> registry_ok (snd (Register c r))"
  using Register_fresh(3) [of r c] Register_registered [of r c] by (cases "c \<in> snd ` set (collectorsByID r)") auto

lemma Register_registered_set:
  "registry_ok r \<Longrightarrow> snd ` set (collectorsByID (snd (Register c r))) = insert c (snd ` set (collectorsByID r))"
  using Register_fresh(2) [of r c] Register_registered [of r c] by (cases "c \<in> snd ` set (collectorsByID r)") auto

lemma map_of_filter_key:
  "map_of (filter (\<lambda>(k, v). k \<noteq> x) cs) k = (if k = x then None else map_of cs k)"
  by (induction cs) auto

lemma Unregister_absent:
  "map_of (collectorsByID r) (descID (desc_of c)) = None \<Longrightarrow> Unregister c r = (False, r)"
  by (simp add: Unregister_def)

lemma Unregister_map_of:
  "map_of (collectorsByID (snd (Unregister c r))) k =
     (if k = descID (desc_of c) then None else map_of (collectorsByID r) k)"
  by (auto simp: Unregister_def Let_def map_of_filter_key split: option.splits)

lemma Unregister_ok: "registry_ok r \<Longrightarrow> registry_ok (snd (Unregister c r))"
  by (auto simp: Unregister_def Let_def registry_ok_def list_all_iff split: option.splits)

lemma Unregister_registered_set:
  assumes "registry_ok r"
  shows "snd ` set (collectorsByID (snd (Unregister c r))) = snd ` set (collectorsByID r) - {c}"
proof (cases "c \<in> snd ` set (collectorsByID r)")
  case True
  with assms have "map_of (collectorsByID r) (descID (desc_of c)) = Some c"
    by (simp add: registry_ok_def map_of_own_id)
  moreover from assms have "\<forall>(k, c') \<in> set (collectorsByID r). k = descID (desc_of c')"
    by (simp add: registry_ok_def list_all_iff)
  ultimately show ?thesis
    by (force simp: Unregister_def Let_def descID_inj)
next
  case False
  with assms have "map_of (collectorsByID r) (descID (desc_of c)) = None"
    by (simp add: registry_ok_def map_of_own_id)
  with False show ?thesis by (simp add: Unregister_absent)
qed

lemma Unregister_fst:
  "registry_ok r \<Longrightarrow> fst (Unregister c r) \<longleftrightarrow> c \<in> snd ` set (collectorsByID r)"
  by (simp add: Unregister_def Let_def registry_ok_def map_of_own_id)

lemma registry_ok_init: "registry_ok (registry init)"
  by (simp add: registry_ok_def init_def NewRegistry_def)

subsection \<open>Start, Stop and Handler on a well-formed registry\<close>

lemma MustRegister_single: "MustRegister [c] r = Register c r"
  by (cases "Register c r") (auto split: option.splits)

declare MustRegister.simps [simp del]

lemma on_registry_fst: "fst (on_registry f ms) = fst (f (registry ms))"
  by (simp add: on_registry_def split: prod.splits)

lemma on_registry_snd: "snd (on_registry f ms) = ms\<lparr>registry := snd (f (registry ms))\<rparr>"
  by (simp add: on_registry_def split: prod.splits)

lemma and_then_fst:
  "fst (and_then x f) = None \<longleftrightarrow> fst x = None \<and> fst (f (snd x)) = None"
  by (cases x) (auto simp: and_then_def split: option.splits)

lemma and_then_snd:
  "snd (and_then x f) = (if fst x = None then snd (f (snd x)) else snd x)"
  by (cases x) (auto simp: and_then_def split: option.splits)

lemma Start_values: "snd (Start ms) = ms\<lparr>registry := registry (snd (Start ms))\<rparr>"
  by (simp add: Start_def and_then_snd on_registry_snd on_registry_fst)

lemma Stop_values: "Stop ms = ms\<lparr>registry := registry (Stop ms)\<rparr>"
  by (simp add: Stop_def Stop_calls_def Let_def split: prod.splits)

lemma Start_fst:
  assumes "registry_ok (registry ms)"
  shows "fst (Start ms) = None \<longleftrightarrow>
    registered ms \<inter> {CK8sAPIEventCounter, CProxyConnectCount, CInjectorSidecarCount, CInjectorRqTime} = {}"
proof -
  let ?r0 = "registry ms"
  let ?r1 = "snd (Register CK8sAPIEventCounter ?r0)"
  let ?r2 = "snd (Register CProxyConnectCount ?r1)"
  let ?r3 = "snd (Register CInjectorSidecarCount ?r2)"
  have ok1: "registry_ok ?r1" using assms by (rule Register_ok)
  have ok2: "registry_ok ?r2" using ok1 by (rule Register_ok)
  have ok3: "registry_ok ?r3" using ok2 by (rule Register_ok)
  show ?thesis
    by (auto simp: Start_def and_then_fst and_then_snd on_registry_fst on_registry_snd
        MustRegister_single registered_def Register_fst [OF assms] Register_fst [OF ok1]
        Register_fst [OF ok2] Register_fst [OF ok3] Register_registered_set [OF assms]
        Register_registered_set [OF ok1] Register_registered_set [OF ok2])
qed

lemma Start_ok:
  assumes "registry_ok (registry ms)"
  shows "registry_ok (registry (snd (Start ms)))"
proof -
  let ?r0 = "registry ms"
  let ?r1 = "snd (Register CK8sAPIEventCounter ?r0)"
  let ?r2 = "snd (Register CProxyConnectCount ?r1)"
  let ?r3 = "snd (Register CInjectorSidecarCount ?r2)"
  let ?r4 = "snd (Register CInjectorRqTime ?r3)"
  have ok1: "registry_ok ?r1" using assms by (rule Register_ok)
  have ok2: "registry_ok ?r2" using ok1 by (rule Register_ok)
  have ok3: "registry_ok ?r3" using ok2 by (rule Register_ok)
  have ok4: "registry_ok ?r4" using ok3 by (rule Register_ok)
  show ?thesis
    using assms ok1 ok2 ok3 ok4
    by (simp add: Start_def and_then_fst and_then_snd on_registry_fst on_registry_snd
        MustRegister_single)
qed

lemma Start_registered_set:
  assumes "registry_ok (registry ms)" and "fst (Start ms) = None"
  shows "registered (snd (Start ms)) = registered ms \<union>
    {CK8sAPIEventCounter, CProxyConnectCount, CInjectorSidecarCount, CInjectorRqTime}"
proof -
  let ?r0 = "registry ms"
  let ?r1 = "snd (Register CK8sAPIEventCounter ?r0)"
  let ?r2 = "snd (Register CProxyConnectCount ?r1)"
  let ?r3 = "snd (Register CInjectorSidecarCount ?r2)"
  have ok1: "registry_ok ?r1" using assms(1) by (rule Register_ok)
  have ok2: "registry_ok ?r2" using ok1 by (rule Register_ok)
  have ok3: "registry_ok ?r3" using ok2 by (rule Register_ok)
  show ?thesis
    using assms(2)
    by (auto simp: Start_def and_then_fst and_then_snd on_registry_fst on_registry_snd
        MustRegister_single registered_def Register_registered_set [OF assms(1)]
        Register_registered_set [OF ok1] Register_registered_set [OF ok2] Register_registered_set [OF ok3])
qed

lemma Start_again:
  assumes "registry_ok (registry ms)" and "CK8sAPIEventCounter \<in> registered ms"
  shows "Start ms = (Some (AlreadyRegisteredError CK8sAPIEventCounter CK8sAPIEventCounter), ms)"
  using Register_registered [OF assms(1), of CK8sAPIEventCounter] assms(2)
  by (simp add: Start_def and_then_def on_registry_def MustRegister_single registered_def)

lemma Start_K8s:
  assumes "registry_ok (registry ms)"
  shows "CK8sAPIEventCounter \<in> registered (snd (Start ms))"
proof (cases "CK8sAPIEventCounter \<in> registered ms")
  case True
  then show ?thesis by (simp add: Start_again [OF assms])
next
  case False
  let ?r0 = "registry ms"
  let ?r1 = "snd (Register CK8sAPIEventCounter ?r0)"
  let ?r2 = "snd (Register CProxyConnectCount ?r1)"
  let ?r3 = "snd (Register CInjectorSidecarCount ?r2)"
  have ok1: "registry_ok ?r1" using assms(1) by (rule Register_ok)
  have ok2: "registry_ok ?r2" using ok1 by (rule Register_ok)
  have ok3: "registry_ok ?r3" using ok2 by (rule Register_ok)
  show ?thesis
    by (auto simp: Start_def and_then_fst and_then_snd on_registry_fst on_registry_snd
        MustRegister_single registered_def Register_registered_set [OF assms(1)]
        Register_registered_set [OF ok1] Register_registered_set [OF ok2] Register_registered_set [OF ok3])
qed

lemma Stop_registry:
  "registry (Stop ms) =
     snd (Unregister CInjectorRqTime (snd (Unregister CInjectorSidecarCount
       (snd (Unregister CProxyConnectCount (snd (Unregister CK8sAPIEventCounter (registry ms))))))))"
  by (simp add: Stop_def Stop_calls_def Let_def split: prod.splits)

lemma Stop_ok: "registry_ok (registry ms) \<Longrightarrow> registry_ok (registry (Stop ms))"
  by (simp add: Stop_registry Unregister_ok)

lemma Stop_registered_set:
  "registry_ok (registry ms) \<Longrightarrow> registered (Stop ms) = registered ms -
     {CK8sAPIEventCounter, CProxyConnectCount, CInjectorSidecarCount, CInjectorRqTime}"
  by (auto simp: registered_def Stop_registry Unregister_ok Unregister_registered_set)

lemma registerRequestsTotal_ok:
  assumes "registry_ok (registry ms)"
  shows "fst (registerRequestsTotal ms) = None \<and>
    registry_ok (registry (snd (registerRequestsTotal ms))) \<and>
    registered (snd (registerRequestsTotal ms)) = insert CPromhttpRequestsTotal (registered ms)"
proof (cases "CPromhttpRequestsTotal \<in> snd ` set (collectorsByID (registry ms))")
  case True
  from Register_registered [OF assms True] assms True show ?thesis
    by (auto simp: registerRequestsTotal_def registered_def)
next
  case False
  obtain e r where er: "Register CPromhttpRequestsTotal (registry ms) = (e, r)"
    by (cases "Register CPromhttpRequestsTotal (registry ms)")
  with Register_fresh [OF assms False] have "e = None" "registry_ok r"
    "collectorsByID r = collectorsByID (registry ms) @
       [(descID (desc_of CPromhttpRequestsTotal), CPromhttpRequestsTotal)]"
    by simp_all
  with er show ?thesis
    by (auto simp: registerRequestsTotal_def registered_def)
qed

lemma registerRequestsInFlight_ok:
  assumes "registry_ok (registry ms)"
  shows "fst (registerRequestsInFlight ms) = None \<and>
    registry_ok (registry (snd (registerRequestsInFlight ms))) \<and>
    registered (snd (registerRequestsInFlight ms)) = insert CPromhttpRequestsInFlight (registered ms)"
proof (cases "CPromhttpRequestsInFlight \<in> snd ` set (collectorsByID (registry ms))")
  case True
  from Register_registered [OF assms True] assms True show ?thesis
    by (auto simp: registerRequestsInFlight_def registered_def)
next
  case False
  obtain e r where er: "Register CPromhttpRequestsInFlight (registry ms) = (e, r)"
    by (cases "Register CPromhttpRequestsInFlight (registry ms)")
  with Register_fresh [OF assms False] have "e = None" "registry_ok r"
    "collectorsByID r = collectorsByID (registry ms) @
       [(descID (desc_of CPromhttpRequestsInFlight), CPromhttpRequestsInFlight)]"
    by simp_all
  with er show ?thesis
    by (auto simp: registerRequestsInFlight_def registered_def)
qed

lemma registerRequestsTotal_values:
  "K8sAPIEventCounter (snd (registerRequestsTotal ms)) = K8sAPIEventCounter ms \<and>
   ProxyConnectCount (snd (registerRequestsTotal ms)) = ProxyConnectCount ms \<and>
   InjectorSidecarCount (snd (registerRequestsTotal ms)) = InjectorSidecarCount ms \<and>
   InjectorRqTime (snd (registerRequestsTotal ms)) = InjectorRqTime ms"
  by (auto simp: registerRequestsTotal_def split: prod.splits option.splits error.splits)

lemma registerRequestsInFlight_values:
  "K8sAPIEventCounter (snd (registerRequestsInFlight ms)) = K8sAPIEventCounter ms \<and>
   ProxyConnectCount (snd (registerRequestsInFlight ms)) = ProxyConnectCount ms \<and>
   InjectorSidecarCount (snd (registerRequestsInFlight ms)) = InjectorSidecarCount ms \<and>
   InjectorRqTime (snd (registerRequestsInFlight ms)) = InjectorRqTime ms"
  by (auto simp: registerRequestsInFlight_def split: prod.splits option.splits error.splits)

lemma Handler_ok:
  assumes "registry_ok (registry ms)"
  shows "fst (Handler ms) = None \<and> registry_ok (registry (snd (Handler ms))) \<and>
    registered (snd (Handler ms)) = registered ms \<union> {CPromhttpRequestsTotal, CPromhttpRequestsInFlight}"
proof -
  note t = registerRequestsTotal_ok [OF assms]
  from t have "registry_ok (registry (snd (registerRequestsTotal ms)))" by simp
  note g = registerRequestsInFlight_ok [OF this]
  from t g show ?thesis
    by (auto simp: Handler_def and_then_fst and_then_snd)
qed

lemma Handler_values:
  "K8sAPIEventCounter (snd (Handler ms)) = K8sAPIEventCounter ms \<and>
   ProxyConnectCount (snd (Handler ms)) = ProxyConnectCount ms \<and>
   InjectorSidecarCount (snd (Handler ms)) = InjectorSidecarCount ms \<and>
   InjectorRqTime (snd (Handler ms)) = InjectorRqTime ms"
  by (simp add: Handler_def and_then_snd registerRequestsTotal_values
      registerRequestsInFlight_values)

subsection \<open>What a scrape shows\<close>

lemma find_family:
  "find (\<lambda>f. mf_name f = fqName (desc_of c)) (concat (map (\<lambda>(k, c'). family_of c' ms) cs)) =
     (if c \<in> snd ` set cs \<and> Collect_metrics c ms \<noteq> []
      then Some \<lparr>mf_name = fqName (desc_of c), mf_help = helpText (desc_of c),
                 mf_type = type_of c, mf_metric = Collect_metrics c ms\<rparr>
      else None)"
proof (induction cs)
  case Nil
  show ?case by simp
next
  case (Cons x cs)
  obtain k c' where x: "x = (k, c')" by (cases x)
  show ?case
  proof (cases "Collect_metrics c' ms")
    case Nil
    with Cons x show ?thesis by (auto simp: family_of_def)
  next
    case (Cons m rest)
    with Cons.IH x show ?thesis by (auto simp: family_of_def fqName_inj)
  qed
qed

lemma name_found:
  "n \<in> set (map mf_name fs) \<longleftrightarrow> find (\<lambda>f. mf_name f = n) fs \<noteq> None"
  by (induction fs) auto

lemma names_Gather:
  "fqName (desc_of c) \<in> set (map mf_name (Gather ms)) \<longleftrightarrow> c \<in> registered ms \<and> Collect_metrics c ms \<noteq> []"
  unfolding name_found by (simp add: Gather_def find_family registered_def)

lemma ServeHTTP_body:
  "body (snd (ServeHTTP ms)) =
     Gather (ms\<lparr>promhttpRequestsInFlight := promhttpRequestsInFlight ms + 1\<rparr>)"
  by (simp add: ServeHTTP_def Let_def)

lemma registered_inflight [simp]: "registered (ms\<lparr>promhttpRequestsInFlight := v\<rparr>) = registered ms"
  by (simp add: registered_def)

lemma Collect_inflight:
  "c \<noteq> CPromhttpRequestsInFlight \<Longrightarrow>
   Collect_metrics c (ms\<lparr>promhttpRequestsInFlight := v\<rparr>) = Collect_metrics c ms"
  by (cases c) simp_all

lemma Collect_nonempty:
  "Collect_metrics c ms \<noteq> [] \<longleftrightarrow>
     (c = CInjectorRqTime \<longrightarrow> InjectorRqTime ms \<noteq> []) \<and>
     (c = CPromhttpRequestsTotal \<longrightarrow> promhttpRequestsTotal ms \<noteq> [])"
  by (cases c) simp_all

lemma scrape_names:
  "fqName (desc_of c) \<in> family_names (snd (ServeHTTP ms)) \<longleftrightarrow>
     c \<in> registered ms \<and> (c = CInjectorRqTime \<longrightarrow> InjectorRqTime ms \<noteq> []) \<and>
     (c = CPromhttpRequestsTotal \<longrightarrow> promhttpRequestsTotal ms \<noteq> [])"
  unfolding family_names_def ServeHTTP_body names_Gather Collect_nonempty by simp

lemma scraped_ServeHTTP:
  "scraped (snd (ServeHTTP ms)) (fqName (desc_of c)) ls =
     (if c \<in> registered ms
      then map_option sample (find (\<lambda>m. labels m = ls)
             (Collect_metrics c (ms\<lparr>promhttpRequestsInFlight := promhttpRequestsInFlight ms + 1\<rparr>)))
      else None)"
  by (simp add: scraped_def ServeHTTP_body Gather_def find_family registered_def)

lemma Start_fields:
  "K8sAPIEventCounter (snd (Start ms)) = K8sAPIEventCounter ms"
  "ProxyConnectCount (snd (Start ms)) = ProxyConnectCount ms"
  "InjectorSidecarCount (snd (Start ms)) = InjectorSidecarCount ms"
  "InjectorRqTime (snd (Start ms)) = InjectorRqTime ms"
  "promhttpRequestsTotal (snd (Start ms)) = promhttpRequestsTotal ms"
  "promhttpRequestsInFlight (snd (Start ms)) = promhttpRequestsInFlight ms"
  by (subst Start_values, simp)+

lemma Stop_fields:
  "K8sAPIEventCounter (Stop ms) = K8sAPIEventCounter ms"
  "ProxyConnectCount (Stop ms) = ProxyConnectCount ms"
  "InjectorSidecarCount (Stop ms) = InjectorSidecarCount ms"
  "InjectorRqTime (Stop ms) = InjectorRqTime ms"
  "promhttpRequestsTotal (Stop ms) = promhttpRequestsTotal ms"
  "promhttpRequestsInFlight (Stop ms) = promhttpRequestsInFlight ms"
  by (subst Stop_values, simp)+

lemma Stop_absent:
  "c \<in> {CK8sAPIEventCounter, CProxyConnectCount, CInjectorSidecarCount, CInjectorRqTime} \<Longrightarrow>
   map_of (collectorsByID (registry (Stop ms))) (descID (desc_of c)) = None"
  by (auto simp: Stop_registry Unregister_map_of)

lemma Stop_calls_absent:
  assumes "\<And>c. c \<in> {CK8sAPIEventCounter, CProxyConnectCount, CInjectorSidecarCount,
      CInjectorRqTime} \<Longrightarrow> map_of (collectorsByID (registry ms)) (descID (desc_of c)) = None"
  shows "Stop_calls ms = ([False, False, False, False], ms)"
  using assms [of CK8sAPIEventCounter] assms [of CProxyConnectCount]
    assms [of CInjectorSidecarCount] assms [of CInjectorRqTime]
  by (simp add: Stop_calls_def Unregister_absent)

subsection \<open>Instrument values\<close>

lemma Inc_funpow:
  "(K8sAPIEventCounter_Inc ^^ N) ms = ms\<lparr>K8sAPIEventCounter := K8sAPIEventCounter ms + real N\<rparr>"
  by (induction N) (simp_all add: K8sAPIEventCounter_Inc_def add.assoc)

lemma ServeHTTP_fields:
  "K8sAPIEventCounter (fst (ServeHTTP ms)) = K8sAPIEventCounter ms"
  "ProxyConnectCount (fst (ServeHTTP ms)) = ProxyConnectCount ms"
  "InjectorSidecarCount (fst (ServeHTTP ms)) = InjectorSidecarCount ms"
  "InjectorRqTime (fst (ServeHTTP ms)) = InjectorRqTime ms"
  "registered (fst (ServeHTTP ms)) = registered ms"
  by (simp_all add: ServeHTTP_def Let_def registered_def)

lemma registered_K8s_update: "registered (ms\<lparr>K8sAPIEventCounter := v\<rparr>) = registered ms"
  by (simp add: registered_def)

lemma cumulative_shift:
  "cumulative (Suc acc) bs cs = map (\<lambda>(b, k). (b, Suc k)) (cumulative acc bs cs)"
  by (induction acc bs cs rule: cumulative.induct) simp_all

lemma cumulative_bounds: "fst ` set (cumulative acc bs cs) \<subseteq> set bs"
  by (induction acc bs cs rule: cumulative.induct) auto

lemma cumulative_observe:
  "sorted bs \<Longrightarrow> length cs = length bs \<Longrightarrow>
   cumulative acc bs (cs[findBucket bs v := cs ! findBucket bs v + 1]) =
     map (\<lambda>(b, k). (b, if v \<le> b then k + 1 else k)) (cumulative acc bs cs)"
proof (induction bs arbitrary: cs acc)
  case Nil
  then show ?case by simp
next
  case (Cons b bs)
  then obtain c cs' where cs: "cs = c # cs'" by (cases cs) auto
  show ?case
  proof (cases "v \<le> b")
    case True
    have "\<forall>x \<in> set (cumulative (acc + c) bs cs'). v \<le> fst x"
      using cumulative_bounds [of "acc + c" bs cs'] Cons.prems(1) True by fastforce
    then have "map (\<lambda>(b, k). (b, if v \<le> b then k + 1 else k)) (cumulative (acc + c) bs cs') =
        map (\<lambda>(b, k). (b, Suc k)) (cumulative (acc + c) bs cs')"
      by (intro map_cong) auto
    with True cs show ?thesis
      using cumulative_shift [of "acc + c" bs cs'] by simp
  next
    case False
    with Cons cs show ?thesis by simp
  qed
qed

lemma Histogram_Write_Observe:
  assumes "sorted bs" and "length (buckets h) = length bs"
    and "Histogram_Write bs h = HistogramSample c s ks"
  shows "Histogram_Write bs (Histogram_Observe bs v h) =
    HistogramSample (c + 1) (s + v) (map (\<lambda>(b, k). (b, if v \<le> b then k + 1 else k)) ks)"
proof -
  let ?i = "findBucket bs v"
  have "buckets (Histogram_Observe bs v h) = (buckets h)[?i := buckets h ! ?i + 1]"
    using assms(2) by (auto simp: Histogram_Observe_def Let_def list_update_beyond)
  then have "cumulative 0 bs (buckets (Histogram_Observe bs v h)) =
      map (\<lambda>(b, k). (b, if v \<le> b then k + 1 else k)) (cumulative 0 bs (buckets h))"
    using cumulative_observe [OF assms(1), of "buckets h" 0 v] assms(2) by simp
  moreover have "sampleCount (Histogram_Observe bs v h) = sampleCount h + 1"
    "sampleSum (Histogram_Observe bs v h) = sampleSum h + v"
    by (simp_all add: Histogram_Observe_def Let_def)
  ultimately show ?thesis
    using assms(3) by (simp add: Histogram_Write_def)
qed

lemma map_of_upd_child:
  "map_of (upd_child new f lvs cs) k =
     (if k = lvs then Some (f (case map_of cs lvs of None \<Rightarrow> new | Some m \<Rightarrow> m))
      else map_of cs k)"
  by (induction cs) auto

lemma list_all_upd_child:
  "list_all P cs \<Longrightarrow> P (lvs, f new) \<Longrightarrow> (\<And>m. P (lvs, m) \<Longrightarrow> P (lvs, f m)) \<Longrightarrow>
   list_all P (upd_child new f lvs cs)"
  by (induction cs) auto

lemma find_child:
  "list_all (\<lambda>(lvs, h). length lvs = 1) cs \<Longrightarrow>
   find (\<lambda>m. labels m = [(l, x)]) (map (\<lambda>(lvs, h). \<lparr>labels = zip [l] lvs, sample = W h\<rparr>) cs) =
     map_option (\<lambda>h. \<lparr>labels = [(l, x)], sample = W h\<rparr>) (map_of cs [x])"
proof (induction cs)
  case Nil
  show ?case by simp
next
  case (Cons a cs)
  obtain k h where a: "a = (k, h)" by (cases a)
  with Cons.prems obtain y where k: "k = [y]" by (cases k) auto
  from Cons a k show ?case by auto
qed

lemma scraped_histogram:
  assumes "CInjectorRqTime \<in> registered ms" and "histograms_ok ms"
  shows "scraped (snd (ServeHTTP ms)) ''osm_injector_injector_rq_time'' [(''success'', x)] =
    map_option (Histogram_Write (Buckets InjectorRqTimeOpts)) (map_of (InjectorRqTime ms) [x])"
proof -
  from assms(2) have "list_all (\<lambda>(lvs, h). length lvs = 1) (InjectorRqTime ms)"
    by (auto simp: histograms_ok_def InjectorRqTimeLabels_def list_all_iff)
  from find_child [OF this, of "''success''" x "Histogram_Write (Buckets InjectorRqTimeOpts)"]
  have "scraped (snd (ServeHTTP ms)) (fqName (desc_of CInjectorRqTime)) [(''success'', x)] =
    map_option (Histogram_Write (Buckets InjectorRqTimeOpts)) (map_of (InjectorRqTime ms) [x])"
    using assms(1)
    by (simp add: scraped_ServeHTTP InjectorRqTimeLabels_def option.map_comp comp_def)
  then show ?thesis by (simp add: fqName_simps)
qed

lemma sorted_Buckets: "sorted (Buckets InjectorRqTimeOpts)"
  by (simp add: InjectorRqTimeOpts_def)

lemma Observe_true:
  "InjectorRqTime_Observe [x] v ms =
     (None, ms\<lparr>InjectorRqTime :=
        upd_child (NewHistogram (Buckets InjectorRqTimeOpts))
          (Histogram_Observe (Buckets InjectorRqTimeOpts) v) [x] (InjectorRqTime ms)\<rparr>)"
  by (simp add: InjectorRqTime_Observe_def InjectorRqTimeLabels_def)

lemma Observe_histograms_ok:
  assumes "histograms_ok ms"
  shows "histograms_ok (snd (InjectorRqTime_Observe lvs v ms))"
proof (cases "length lvs = length InjectorRqTimeLabels")
  case True
  with assms show ?thesis
    by (auto simp: InjectorRqTime_Observe_def histograms_ok_def NewHistogram_def
        Histogram_Observe_def Let_def intro!: list_all_upd_child)
next
  case False
  with assms show ?thesis by (simp add: InjectorRqTime_Observe_def)
qed

lemma fresh_observation:
  "Histogram_Write (Buckets InjectorRqTimeOpts)
     (Histogram_Observe (Buckets InjectorRqTimeOpts) (3/10)
        (NewHistogram (Buckets InjectorRqTimeOpts))) =
   HistogramSample 1 (3/10)
     [(1/10, 0), (1/4, 0), (1/2, 1), (1, 1), (5/2, 1), (5, 1), (10, 1), (20, 1), (40, 1)]"
  by code_simp

lemma run_ok: "registry_ok (registry ms) \<Longrightarrow> registry_ok (registry (run calls ms))"
proof (induction calls arbitrary: ms)
  case Nil
  then show ?case by simp
next
  case (Cons call calls)
  then show ?case by (cases call) (simp_all add: Start_ok Stop_ok)
qed

subsection \<open>Every reachable state is well-formed\<close>

lemma reachable_ok: "reachable ms \<Longrightarrow> registry_ok (registry ms) \<and> histograms_ok ms"
proof (induction rule: reachable.induct)
  case reachable_init
  show ?case by (simp add: registry_ok_init) (simp add: histograms_ok_def init_def)
next
  case (reachable_Start ms)
  then show ?case by (simp add: Start_ok) (simp add: histograms_ok_def Start_fields)
next
  case (reachable_Stop ms)
  then show ?case by (simp add: Stop_ok) (simp add: histograms_ok_def Stop_fields)
next
  case (reachable_Handler ms)
  then show ?case by (simp add: Handler_ok) (simp add: histograms_ok_def Handler_values)
next
  case (reachable_ServeHTTP ms)
  then show ?case by (simp add: histograms_ok_def ServeHTTP_def Let_def)
next
  case (reachable_K8sAPIEventCounter_Inc ms)
  then show ?case by (simp add: histograms_ok_def K8sAPIEventCounter_Inc_def)
next
  case (reachable_InjectorSidecarCount_Inc ms)
  then show ?case by (simp add: histograms_ok_def InjectorSidecarCount_Inc_def)
next
  case (reachable_ProxyConnectCount_Set ms v)
  then show ?case by (simp add: histograms_ok_def ProxyConnectCount_Set_def)
next
  case (reachable_InjectorRqTime_Observe ms lvs v)
  then show ?case by (simp add: Observe_histograms_ok) (simp add: InjectorRqTime_Observe_def)
qed

section \<open>The claims\<close>

text \<open>
  Where a statement below asks for a well-formed registry or well-formed histograms, it
  holds of every reachable state (\<open>reachable_ok\<close>).
\<close>

text \<open>
  C1, as amended. In a store with a well-formed registry, after a \<open>Start\<close> that returns,
  \<open>Handler\<close> returns a handler and a scrape through it contains the names
  \<open>osm_k8s_api_event_count\<close>, \<open>osm_proxy_connect_count\<close> and
  \<open>osm_injector_injector_sidecar_count\<close>; it contains \<open>osm_injector_injector_rq_time\<close>
  exactly when the histogram vector has at least one child, that is, once an observation
  has been recorded under some value of the label \<open>success\<close>.
\<close>

theorem Start_scrape_names:
  assumes "registry_ok (registry ms)" and "fst (Start ms) = None"
  shows "fst (Handler (snd (Start ms))) = None \<and>
    ''osm_k8s_api_event_count'' \<in> family_names (snd (ServeHTTP (snd (Handler (snd (Start ms)))))) \<and>
    ''osm_proxy_connect_count'' \<in> family_names (snd (ServeHTTP (snd (Handler (snd (Start ms)))))) \<and>
    ''osm_injector_injector_sidecar_count''
       \<in> family_names (snd (ServeHTTP (snd (Handler (snd (Start ms)))))) \<and>
    (''osm_injector_injector_rq_time''
       \<in> family_names (snd (ServeHTTP (snd (Handler (snd (Start ms))))))
     \<longleftrightarrow> InjectorRqTime ms \<noteq> [])"
proof -
  let ?ms1 = "snd (Start ms)"
  let ?ms2 = "snd (Handler ?ms1)"
  have ok1: "registry_ok (registry ?ms1)" using assms(1) by (rule Start_ok)
  note h = Handler_ok [OF ok1]
  have r: "registered ?ms2 = registered ms \<union>
      {CK8sAPIEventCounter, CProxyConnectCount, CInjectorSidecarCount, CInjectorRqTime} \<union>
      {CPromhttpRequestsTotal, CPromhttpRequestsInFlight}"
    using h Start_registered_set [OF assms] by simp
  have v: "InjectorRqTime ?ms2 = InjectorRqTime ms"
    by (simp add: Handler_values Start_fields)
  have "fqName (desc_of CK8sAPIEventCounter) \<in> family_names (snd (ServeHTTP ?ms2))"
    "fqName (desc_of CProxyConnectCount) \<in> family_names (snd (ServeHTTP ?ms2))"
    "fqName (desc_of CInjectorSidecarCount) \<in> family_names (snd (ServeHTTP ?ms2))"
    "fqName (desc_of CInjectorRqTime) \<in> family_names (snd (ServeHTTP ?ms2))
      \<longleftrightarrow> InjectorRqTime ms \<noteq> []"
    by (simp_all add: scrape_names r v)
  with h show ?thesis by (simp add: fqName_simps)
qed

text \<open>
  C1 at a concrete store: after one observation on the store built by \<open>init\<close>, \<open>Start\<close>
  returns and the scrape contains the histogram's name.
\<close>

theorem Start_scrape_names_witness:
  "registry_ok (registry (snd (InjectorRqTime_Observe [''true''] (3/10) init))) \<and>
   fst (Start (snd (InjectorRqTime_Observe [''true''] (3/10) init))) = None \<and>
   ''osm_injector_injector_rq_time'' \<in> family_names (snd (ServeHTTP (snd (Handler
      (snd (Start (snd (InjectorRqTime_Observe [''true''] (3/10) init))))))))"
proof -
  let ?ms = "snd (InjectorRqTime_Observe [''true''] (3/10) init)"
  have h1: "registry_ok (registry ?ms)" by code_simp
  have h2: "fst (Start ?ms) = None" by code_simp
  have h3: "InjectorRqTime ?ms \<noteq> []" by code_simp
  from Start_scrape_names [OF h1 h2] h1 h2 h3 show ?thesis by simp
qed

text \<open>
  C1 as stated fails on the store built by \<open>init\<close>: \<open>Start\<close> and \<open>Handler\<close> return, and
  the scrape does not contain \<open>osm_injector_injector_rq_time\<close>, because the histogram
  vector has no child yet.
\<close>

theorem Start_scrape_names_counterexample:
  "fst (Start init) = None \<and> fst (Handler (snd (Start init))) = None \<and>
   ''osm_injector_injector_rq_time''
     \<notin> family_names (snd (ServeHTTP (snd (Handler (snd (Start init))))))"
  by code_simp

text \<open>
  C2. In a store with a well-formed registry, a \<open>Start\<close> that follows a \<open>Start\<close> with no
  \<open>Stop\<close> in between panics with the registry's already-registered error for the first
  instrument, and leaves the store as it was: nothing is registered a second time.
\<close>

theorem Start_twice_panics:
  assumes "registry_ok (registry ms)"
  shows "Start (snd (Start ms)) =
    (Some (AlreadyRegisteredError CK8sAPIEventCounter CK8sAPIEventCounter), snd (Start ms))"
  using Start_again [OF Start_ok [OF assms] Start_K8s [OF assms]] .

text \<open>
  C2 at the store built by \<open>init\<close>: the first \<open>Start\<close> returns, the second panics.
\<close>

theorem Start_twice_panics_witness:
  "registry_ok (registry init) \<and> fst (Start init) = None \<and>
   Start (snd (Start init)) =
     (Some (AlreadyRegisteredError CK8sAPIEventCounter CK8sAPIEventCounter), snd (Start init))"
proof -
  have h: "registry_ok (registry init)" by code_simp
  have "fst (Start init) = None" by code_simp
  with h Start_twice_panics [OF h] show ?thesis by simp
qed

text \<open>
  C3. In a store with a well-formed registry, after \<open>Stop\<close> a scrape through the handler
  returned by \<open>Handler\<close> contains none of the four names. (\<open>Handler\<close> changes nothing when
  its two collectors are registered already, so the handler may as well have been obtained
  before the \<open>Stop\<close>.)
\<close>

theorem Stop_scrape_names:
  assumes "registry_ok (registry ms)"
  shows "fst (Handler (Stop ms)) = None \<and>
    ''osm_k8s_api_event_count'' \<notin> family_names (snd (ServeHTTP (snd (Handler (Stop ms))))) \<and>
    ''osm_proxy_connect_count'' \<notin> family_names (snd (ServeHTTP (snd (Handler (Stop ms))))) \<and>
    ''osm_injector_injector_sidecar_count''
       \<notin> family_names (snd (ServeHTTP (snd (Handler (Stop ms))))) \<and>
    ''osm_injector_injector_rq_time''
       \<notin> family_names (snd (ServeHTTP (snd (Handler (Stop ms)))))"
proof -
  let ?ms2 = "snd (Handler (Stop ms))"
  have ok1: "registry_ok (registry (Stop ms))" using assms by (rule Stop_ok)
  note h = Handler_ok [OF ok1]
  have r: "registered ?ms2 = registered ms -
      {CK8sAPIEventCounter, CProxyConnectCount, CInjectorSidecarCount, CInjectorRqTime} \<union>
      {CPromhttpRequestsTotal, CPromhttpRequestsInFlight}"
    using h Stop_registered_set [OF assms] by simp
  have "fqName (desc_of CK8sAPIEventCounter) \<notin> family_names (snd (ServeHTTP ?ms2))"
    "fqName (desc_of CProxyConnectCount) \<notin> family_names (snd (ServeHTTP ?ms2))"
    "fqName (desc_of CInjectorSidecarCount) \<notin> family_names (snd (ServeHTTP ?ms2))"
    "fqName (desc_of CInjectorRqTime) \<notin> family_names (snd (ServeHTTP ?ms2))"
    by (simp_all add: scrape_names r)
  with h show ?thesis by (simp add: fqName_simps)
qed

text \<open>
  C3 at a started store: \<open>init\<close>, then \<open>Start\<close>, then \<open>Stop\<close>.
\<close>

theorem Stop_scrape_names_witness:
  "registry_ok (registry (snd (Start init))) \<and>
   fst (Handler (Stop (snd (Start init)))) = None \<and>
   ''osm_k8s_api_event_count''
      \<notin> family_names (snd (ServeHTTP (snd (Handler (Stop (snd (Start init))))))) \<and>
   ''osm_injector_injector_rq_time''
      \<notin> family_names (snd (ServeHTTP (snd (Handler (Stop (snd (Start init)))))))"
proof -
  have h: "registry_ok (registry (snd (Start init)))" by code_simp
  from Stop_scrape_names [OF h] h show ?thesis by simp
qed

text \<open>
  C4. One invocation of the handler changes nothing of the store but the handler's own
  request counter (its in-flight gauge is back at its value when the invocation ends): the
  event counter, the proxy gauge, the sidecar counter, the request-time histogram and the
  registry are as before.
\<close>

theorem ServeHTTP_frame:
  "fst (ServeHTTP ms) =
     ms\<lparr>promhttpRequestsTotal := upd_child 0 (\<lambda>v. v + 1) [''200''] (promhttpRequestsTotal ms)\<rparr> \<and>
   K8sAPIEventCounter (fst (ServeHTTP ms)) = K8sAPIEventCounter ms \<and>
   ProxyConnectCount (fst (ServeHTTP ms)) = ProxyConnectCount ms \<and>
   InjectorSidecarCount (fst (ServeHTTP ms)) = InjectorSidecarCount ms \<and>
   InjectorRqTime (fst (ServeHTTP ms)) = InjectorRqTime ms \<and>
   registry (fst (ServeHTTP ms)) = registry ms"
  by (simp add: ServeHTTP_def Let_def)

text \<open>
  C5. When the event counter is registered, a scrape shows its value, and a scrape taken
  after \<open>N\<close> further increments shows that value plus \<open>N\<close>.
\<close>

theorem counter_increments_scraped:
  assumes "CK8sAPIEventCounter \<in> registered ms"
  shows "scraped (snd (ServeHTTP ms)) ''osm_k8s_api_event_count'' [] =
      Some (CounterSample (K8sAPIEventCounter ms)) \<and>
    scraped (snd (ServeHTTP ((K8sAPIEventCounter_Inc ^^ N) (fst (ServeHTTP ms)))))
      ''osm_k8s_api_event_count'' [] =
      Some (CounterSample (K8sAPIEventCounter ms + real N))"
proof -
  have "scraped (snd (ServeHTTP ms)) (fqName (desc_of CK8sAPIEventCounter)) [] =
      Some (CounterSample (K8sAPIEventCounter ms))"
    using assms by (simp add: scraped_ServeHTTP)
  moreover have "scraped (snd (ServeHTTP ((K8sAPIEventCounter_Inc ^^ N) (fst (ServeHTTP ms)))))
      (fqName (desc_of CK8sAPIEventCounter)) [] =
      Some (CounterSample (K8sAPIEventCounter ms + real N))"
    using assms by (simp add: scraped_ServeHTTP Inc_funpow ServeHTTP_fields registered_K8s_update)
  ultimately show ?thesis by (simp add: fqName_simps)
qed

text \<open>
  C5 at a started store, with three increments between the scrapes.
\<close>

theorem counter_increments_scraped_witness:
  "CK8sAPIEventCounter \<in> registered (snd (Start init)) \<and>
   scraped (snd (ServeHTTP (snd (Start init)))) ''osm_k8s_api_event_count'' [] =
     Some (CounterSample 0) \<and>
   scraped (snd (ServeHTTP ((K8sAPIEventCounter_Inc ^^ 3) (fst (ServeHTTP (snd (Start init)))))))
     ''osm_k8s_api_event_count'' [] = Some (CounterSample 3)"
proof -
  have h: "CK8sAPIEventCounter \<in> registered (snd (Start init))" by code_simp
  from counter_increments_scraped [OF h, of 3] h show ?thesis
    by (simp add: Start_fields init_def)
qed

text \<open>
  C6. When the proxy gauge is registered, setting it to \<open>V\<close> and scraping shows \<open>V\<close>, and
  setting it to \<open>V1\<close> and then to \<open>V2\<close> and scraping shows \<open>V2\<close>: the last write wins.
\<close>

theorem gauge_last_write_wins:
  assumes "CProxyConnectCount \<in> registered ms"
  shows "scraped (snd (ServeHTTP (ProxyConnectCount_Set V ms))) ''osm_proxy_connect_count'' [] =
      Some (GaugeSample V) \<and>
    scraped (snd (ServeHTTP (ProxyConnectCount_Set V2 (ProxyConnectCount_Set V1 ms))))
      ''osm_proxy_connect_count'' [] = Some (GaugeSample V2)"
proof -
  have "scraped (snd (ServeHTTP (ProxyConnectCount_Set V ms)))
      (fqName (desc_of CProxyConnectCount)) [] = Some (GaugeSample V)"
    using assms by (simp add: scraped_ServeHTTP ProxyConnectCount_Set_def registered_def)
  moreover have "scraped (snd (ServeHTTP (ProxyConnectCount_Set V2 (ProxyConnectCount_Set V1 ms))))
      (fqName (desc_of CProxyConnectCount)) [] = Some (GaugeSample V2)"
    using assms by (simp add: scraped_ServeHTTP ProxyConnectCount_Set_def registered_def)
  ultimately show ?thesis by (simp add: fqName_simps)
qed

text \<open>
  C6 at a started store: set to 5; set to 2 and then to 7.
\<close>

theorem gauge_last_write_wins_witness:
  "CProxyConnectCount \<in> registered (snd (Start init)) \<and>
   scraped (snd (ServeHTTP (ProxyConnectCount_Set 5 (snd (Start init)))))
     ''osm_proxy_connect_count'' [] = Some (GaugeSample 5) \<and>
   scraped (snd (ServeHTTP (ProxyConnectCount_Set 7 (ProxyConnectCount_Set 2 (snd (Start init))))))
     ''osm_proxy_connect_count'' [] = Some (GaugeSample 7)"
proof -
  have h: "CProxyConnectCount \<in> registered (snd (Start init))" by code_simp
  from gauge_last_write_wins [OF h, of 5] gauge_last_write_wins [OF h, of _ 7 2] h
  show ?thesis by simp
qed

text \<open>
  C7. The declared bucket boundaries are 0.1, 0.25, 0.5, 1, 2.5, 5, 10, 20, 40. When the
  histogram is registered, recording one observation of 0.3 under \<open>success="true"\<close> between
  two scrapes has this effect on the second: if the first had no \<open>true\<close> partition, the
  second shows one with count 1, sum 0.3 and cumulative count 0 for the buckets 0.1 and 0.25
  and 1 for each bucket from 0.5 on; if the first had one, every bucket with boundary at
  least 0.3 has gained exactly 1 and the others nothing; and the \<open>false\<close> partition reads
  as in the first scrape.
\<close>

theorem observation_scraped:
  assumes "CInjectorRqTime \<in> registered ms" and "histograms_ok ms"
  shows "Buckets InjectorRqTimeOpts = [1/10, 1/4, 1/2, 1, 5/2, 5, 10, 20, 40] \<and>
    fst (InjectorRqTime_Observe [''true''] (3/10) (fst (ServeHTTP ms))) = None \<and>
    (scraped (snd (ServeHTTP ms)) ''osm_injector_injector_rq_time'' [(''success'', ''true'')] = None
     \<longrightarrow> scraped (snd (ServeHTTP (snd (InjectorRqTime_Observe [''true''] (3/10)
             (fst (ServeHTTP ms)))))) ''osm_injector_injector_rq_time'' [(''success'', ''true'')] =
         Some (HistogramSample 1 (3/10)
           [(1/10, 0), (1/4, 0), (1/2, 1), (1, 1), (5/2, 1), (5, 1), (10, 1), (20, 1), (40, 1)])) \<and>
    (\<forall>c s ks.
       scraped (snd (ServeHTTP ms)) ''osm_injector_injector_rq_time'' [(''success'', ''true'')] =
         Some (HistogramSample c s ks)
     \<longrightarrow> scraped (snd (ServeHTTP (snd (InjectorRqTime_Observe [''true''] (3/10)
             (fst (ServeHTTP ms)))))) ''osm_injector_injector_rq_time'' [(''success'', ''true'')] =
         Some (HistogramSample (c + 1) (s + 3/10)
           (map (\<lambda>(b, k). (b, if 3/10 \<le> b then k + 1 else k)) ks))) \<and>
    scraped (snd (ServeHTTP (snd (InjectorRqTime_Observe [''true''] (3/10)
        (fst (ServeHTTP ms)))))) ''osm_injector_injector_rq_time'' [(''success'', ''false'')] =
      scraped (snd (ServeHTTP ms)) ''osm_injector_injector_rq_time'' [(''success'', ''false'')]"
proof -
  let ?bs = "Buckets InjectorRqTimeOpts"
  let ?ms1 = "fst (ServeHTTP ms)"
  let ?ms2 = "snd (InjectorRqTime_Observe [''true''] (3/10) ?ms1)"
  have r1: "CInjectorRqTime \<in> registered ?ms1" using assms(1) by (simp add: ServeHTTP_fields)
  have ok1: "histograms_ok ?ms1" using assms(2) by (simp add: histograms_ok_def ServeHTTP_fields)
  have r2: "CInjectorRqTime \<in> registered ?ms2" using r1 by (simp add: Observe_true registered_def)
  have ok2: "histograms_ok ?ms2" using ok1 by (rule Observe_histograms_ok)
  have before: "scraped (snd (ServeHTTP ms)) ''osm_injector_injector_rq_time'' [(''success'', x)] =
      map_option (Histogram_Write ?bs) (map_of (InjectorRqTime ms) [x])" for x
    by (rule scraped_histogram [OF assms])
  have after: "scraped (snd (ServeHTTP ?ms2)) ''osm_injector_injector_rq_time'' [(''success'', x)] =
      map_option (Histogram_Write ?bs) (map_of (InjectorRqTime ?ms2) [x])" for x
    by (rule scraped_histogram [OF r2 ok2])
  have children: "map_of (InjectorRqTime ?ms2) [x] =
      (if x = ''true''
       then Some (Histogram_Observe ?bs (3/10)
         (case map_of (InjectorRqTime ms) [''true''] of
            None \<Rightarrow> NewHistogram ?bs | Some h \<Rightarrow> h))
       else map_of (InjectorRqTime ms) [x])" for x
    by (simp add: Observe_true map_of_upd_child ServeHTTP_fields)
  have a: "?bs = [1/10, 1/4, 1/2, 1, 5/2, 5, 10, 20, 40]"
    by (simp add: InjectorRqTimeOpts_def)
  have b: "fst (InjectorRqTime_Observe [''true''] (3/10) ?ms1) = None"
    by (simp add: Observe_true)
  have c: "scraped (snd (ServeHTTP ms)) ''osm_injector_injector_rq_time'' [(''success'', ''true'')]
      = None \<longrightarrow>
    scraped (snd (ServeHTTP ?ms2)) ''osm_injector_injector_rq_time'' [(''success'', ''true'')] =
      Some (HistogramSample 1 (3/10)
        [(1/10, 0), (1/4, 0), (1/2, 1), (1, 1), (5/2, 1), (5, 1), (10, 1), (20, 1), (40, 1)])"
    unfolding before after children by (simp add: fresh_observation)
  have d: "scraped (snd (ServeHTTP ms)) ''osm_injector_injector_rq_time'' [(''success'', ''true'')]
      = Some (HistogramSample c s ks) \<longrightarrow>
    scraped (snd (ServeHTTP ?ms2)) ''osm_injector_injector_rq_time'' [(''success'', ''true'')] =
      Some (HistogramSample (c + 1) (s + 3/10)
        (map (\<lambda>(b, k). (b, if 3/10 \<le> b then k + 1 else k)) ks))" for c s ks
  proof
    assume "scraped (snd (ServeHTTP ms)) ''osm_injector_injector_rq_time''
      [(''success'', ''true'')] = Some (HistogramSample c s ks)"
    then obtain h where h: "map_of (InjectorRqTime ms) [''true''] = Some h"
      and w: "Histogram_Write ?bs h = HistogramSample c s ks"
      unfolding before by auto
    from h have "([''true''], h) \<in> set (InjectorRqTime ms)" by (rule map_of_SomeD)
    with assms(2) have len: "length (buckets h) = length ?bs"
      by (auto simp: histograms_ok_def list_all_iff)
    from Histogram_Write_Observe [OF sorted_Buckets len w, of "3/10"] h
    show "scraped (snd (ServeHTTP ?ms2)) ''osm_injector_injector_rq_time''
        [(''success'', ''true'')] =
      Some (HistogramSample (c + 1) (s + 3/10)
        (map (\<lambda>(b, k). (b, if 3/10 \<le> b then k + 1 else k)) ks))"
      unfolding after children by simp
  qed
  have e: "scraped (snd (ServeHTTP ?ms2)) ''osm_injector_injector_rq_time''
      [(''success'', ''false'')] =
    scraped (snd (ServeHTTP ms)) ''osm_injector_injector_rq_time'' [(''success'', ''false'')]"
    unfolding before after children by simp
  from a b c d e show ?thesis by blast
qed

text \<open>
  C7 at a started store: a first observation, with no partition yet, and a second one.
\<close>

theorem observation_scraped_witness:
  "CInjectorRqTime \<in> registered (snd (Start init)) \<and> histograms_ok (snd (Start init)) \<and>
   scraped (snd (ServeHTTP (snd (Start init)))) ''osm_injector_injector_rq_time''
     [(''success'', ''true'')] = None \<and>
   scraped (snd (ServeHTTP (snd (InjectorRqTime_Observe [''true''] (3/10)
     (fst (ServeHTTP (snd (Start init))))))))
     ''osm_injector_injector_rq_time'' [(''success'', ''true'')] =
     Some (HistogramSample 1 (3/10)
       [(1/10, 0), (1/4, 0), (1/2, 1), (1, 1), (5/2, 1), (5, 1), (10, 1), (20, 1), (40, 1)]) \<and>
   scraped (snd (ServeHTTP (snd (InjectorRqTime_Observe [''true''] (3/10)
     (fst (ServeHTTP (snd (Start init))))))))
     ''osm_injector_injector_rq_time'' [(''success'', ''false'')] = None \<and>
   scraped (snd (ServeHTTP (snd (InjectorRqTime_Observe [''true''] (3/10)
     (fst (ServeHTTP (snd (InjectorRqTime_Observe [''true''] (3/10) (snd (Start init))))))))))
     ''osm_injector_injector_rq_time'' [(''success'', ''true'')] =
     Some (HistogramSample 2 (3/5)
       [(1/10, 0), (1/4, 0), (1/2, 2), (1, 2), (5/2, 2), (5, 2), (10, 2), (20, 2), (40, 2)])"
proof -
  let ?ms = "snd (Start init)"
  let ?ms' = "snd (InjectorRqTime_Observe [''true''] (3/10) (snd (Start init)))"
  have h1: "CInjectorRqTime \<in> registered ?ms" by code_simp
  have h2: "histograms_ok ?ms" by code_simp
  have h3: "scraped (snd (ServeHTTP ?ms)) ''osm_injector_injector_rq_time''
     [(''success'', ''true'')] = None" by code_simp
  have h4: "scraped (snd (ServeHTTP ?ms)) ''osm_injector_injector_rq_time''
     [(''success'', ''false'')] = None" by code_simp
  have k1: "CInjectorRqTime \<in> registered ?ms'" by code_simp
  have k2: "histograms_ok ?ms'" by code_simp
  have k3: "scraped (snd (ServeHTTP ?ms')) ''osm_injector_injector_rq_time''
     [(''success'', ''true'')] =
     Some (HistogramSample 1 (3/10)
       [(1/10, 0), (1/4, 0), (1/2, 1), (1, 1), (5/2, 1), (5, 1), (10, 1), (20, 1), (40, 1)])"
    by code_simp
  from observation_scraped [OF k1 k2, THEN conjunct2, THEN conjunct2, THEN conjunct2,
      THEN conjunct1, rule_format, OF k3]
  have "scraped (snd (ServeHTTP (snd (InjectorRqTime_Observe [''true''] (3/10)
      (fst (ServeHTTP ?ms'))))))
     ''osm_injector_injector_rq_time'' [(''success'', ''true'')] =
     Some (HistogramSample 2 (3/5)
       [(1/10, 0), (1/4, 0), (1/2, 2), (1, 2), (5/2, 2), (5, 2), (10, 2), (20, 2), (40, 2)])"
    by simp
  with observation_scraped [OF h1 h2] h1 h2 h3 h4 show ?thesis by simp
qed

text \<open>
  C8. \<open>Stop\<close> has no error result and no panic: it makes all four removals and returns
  the store it reaches whatever they report. On the store built by \<open>init\<close> (a \<open>Stop\<close> before any
  \<open>Start\<close>) and on any store just stopped (a second \<open>Stop\<close> in a row) all four removals
  report \<open>False\<close>, and \<open>Stop\<close> returns the store unchanged.
\<close>

theorem Stop_reports_nothing:
  "length (Stop_results ms) = 4 \<and>
   Stop_results init = [False, False, False, False] \<and> Stop init = init \<and>
   Stop_results (Stop ms) = [False, False, False, False] \<and> Stop (Stop ms) = Stop ms"
proof -
  have "length (Stop_results ms) = 4"
    by (simp add: Stop_results_def Stop_calls_def Let_def split: prod.splits)
  moreover have "Stop_calls init = ([False, False, False, False], init)"
    by (rule Stop_calls_absent) (simp add: init_def NewRegistry_def)
  moreover have "Stop_calls (Stop ms) = ([False, False, False, False], Stop ms)"
    by (rule Stop_calls_absent) (rule Stop_absent)
  ultimately show ?thesis
    by (simp add: Stop_results_def Stop_def [of init] Stop_def [of "Stop ms"])
qed

text \<open>
  C9. In a store with a well-formed registry, in the sequence \<open>Start\<close>, \<open>Stop\<close>,
  \<open>Start\<close> the \<open>Stop\<close> leaves none of the four instruments in the registry, the second
  \<open>Start\<close> returns without a panic, and after it all four instruments are registered
  again: the store is restarted.
\<close>

theorem restart_succeeds:
  assumes "registry_ok (registry ms)"
  shows "fst (Start (Stop (snd (Start ms)))) = None \<and>
    CK8sAPIEventCounter \<notin> registered (Stop (snd (Start ms))) \<and>
    CProxyConnectCount \<notin> registered (Stop (snd (Start ms))) \<and>
    CInjectorSidecarCount \<notin> registered (Stop (snd (Start ms))) \<and>
    CInjectorRqTime \<notin> registered (Stop (snd (Start ms))) \<and>
    CK8sAPIEventCounter \<in> registered (snd (Start (Stop (snd (Start ms))))) \<and>
    CProxyConnectCount \<in> registered (snd (Start (Stop (snd (Start ms))))) \<and>
    CInjectorSidecarCount \<in> registered (snd (Start (Stop (snd (Start ms))))) \<and>
    CInjectorRqTime \<in> registered (snd (Start (Stop (snd (Start ms)))))"
proof -
  have ok1: "registry_ok (registry (snd (Start ms)))" using assms by (rule Start_ok)
  have ok2: "registry_ok (registry (Stop (snd (Start ms))))" using ok1 by (rule Stop_ok)
  have stopped: "registered (Stop (snd (Start ms))) = registered (snd (Start ms)) -
      {CK8sAPIEventCounter, CProxyConnectCount, CInjectorSidecarCount, CInjectorRqTime}"
    using ok1 by (rule Stop_registered_set)
  have returns: "fst (Start (Stop (snd (Start ms)))) = None"
    unfolding Start_fst [OF ok2] stopped by blast
  have "registered (snd (Start (Stop (snd (Start ms))))) = registered (Stop (snd (Start ms))) \<union>
      {CK8sAPIEventCounter, CProxyConnectCount, CInjectorSidecarCount, CInjectorRqTime}"
    using ok2 returns by (rule Start_registered_set)
  with returns stopped show ?thesis by simp
qed

text \<open>
  C9 at the store built by \<open>init\<close>.
\<close>

theorem restart_succeeds_witness:
  "registry_ok (registry init) \<and> fst (Start (Stop (snd (Start init)))) = None \<and>
   registered (Stop (snd (Start init))) = {} \<and>
   CK8sAPIEventCounter \<in> registered (snd (Start (Stop (snd (Start init))))) \<and>
   CProxyConnectCount \<in> registered (snd (Start (Stop (snd (Start init))))) \<and>
   CInjectorSidecarCount \<in> registered (snd (Start (Stop (snd (Start init))))) \<and>
   CInjectorRqTime \<in> registered (snd (Start (Stop (snd (Start init)))))"
proof -
  have h: "registry_ok (registry init)" by code_simp
  have e: "registered (Stop (snd (Start init))) = {}" by code_simp
  from restart_succeeds [OF h] h e show ?thesis by simp
qed

text \<open>
  C10. Any sequence of \<open>Start\<close> and \<open>Stop\<close> calls changes the registry at most: the
  values of the event counter, the proxy gauge, the sidecar counter and the request-time
  histogram after the sequence are the values before it.
\<close>

theorem lifecycle_keeps_values:
  "run calls ms = ms\<lparr>registry := registry (run calls ms)\<rparr> \<and>
   K8sAPIEventCounter (run calls ms) = K8sAPIEventCounter ms \<and>
   ProxyConnectCount (run calls ms) = ProxyConnectCount ms \<and>
   InjectorSidecarCount (run calls ms) = InjectorSidecarCount ms \<and>
   InjectorRqTime (run calls ms) = InjectorRqTime ms"
proof (induction calls arbitrary: ms)
  case Nil
  show ?case by simp
next
  case (Cons call calls)
  show ?case
  proof (cases call)
    case CallStart
    have "snd (Start ms)\<lparr>registry := registry (run calls (snd (Start ms)))\<rparr> =
        ms\<lparr>registry := registry (run calls (snd (Start ms)))\<rparr>"
      by (subst Start_values) simp
    with Cons [of "snd (Start ms)"] CallStart show ?thesis
      by (simp add: Start_fields)
  next
    case CallStop
    have "(Stop ms)\<lparr>registry := registry (run calls (Stop ms))\<rparr> =
        ms\<lparr>registry := registry (run calls (Stop ms))\<rparr>"
      by (subst Stop_values) simp
    with Cons [of "Stop ms"] CallStop show ?thesis
      by (simp add: Stop_fields)
  qed
qed

end
